theory Spec2Isabelle
  imports Complex_Main "HOL-Library.Word"
begin

unbundle bit_operations_syntax

section \<open>Data model of the decoder\<close>

type_synonym byte = "8 word"

text \<open>
  Go's \<open>float64\<close> values as far as the decoder uses them: it only divides an integer
  by an integer and compares the quotient with constants. A finite value is kept as the
  exact rational (rounding is not modelled); the three special values of a division by
  a zero sample rate are kept, with the comparison rules of IEEE 754 (every comparison
  with NaN is false). For a sample count below \<open>2^53\<close> and a 32-bit sample rate the
  exact comparison with 350 or 600 microseconds decides as the rounded one does: the
  quotient \<open>n / r\<close> either equals the threshold, and then both round to the same
  \<open>float64\<close>, or differs from it by at least \<open>1 / (20000 * r)\<close>, far more than the
  rounding error.
\<close>

datatype f64 = Finite rat | PosInf | NegInf | NaN

fun f64_lt :: "f64 \<Rightarrow> f64 \<Rightarrow> bool" where
  "f64_lt NaN y = False"
| "f64_lt x NaN = False"
| "f64_lt (Finite a) (Finite b) = (a < b)"
| "f64_lt (Finite a) PosInf = True"
| "f64_lt (Finite a) NegInf = False"
| "f64_lt PosInf y = False"
| "f64_lt NegInf NegInf = False"
| "f64_lt NegInf y = True"

fun f64_le :: "f64 \<Rightarrow> f64 \<Rightarrow> bool" where
  "f64_le NaN y = False"
| "f64_le x NaN = False"
| "f64_le (Finite a) (Finite b) = (a \<le> b)"
| "f64_le (Finite a) PosInf = True"
| "f64_le (Finite a) NegInf = False"
| "f64_le PosInf PosInf = True"
| "f64_le PosInf y = False"
| "f64_le NegInf y = True"

definition f64_gt :: "f64 \<Rightarrow> f64 \<Rightarrow> bool" where
  "f64_gt x y = f64_lt y x"

definition f64_ge :: "f64 \<Rightarrow> f64 \<Rightarrow> bool" where
  "f64_ge x y = f64_le y x"

text \<open>\<open>float64(n) / float64(r)\<close> for an \<open>int\<close> n and a \<open>uint32\<close> r.\<close>

definition f64_quot :: "int \<Rightarrow> 32 word \<Rightarrow> f64" where
  "f64_quot n r =
     (if r \<noteq> 0 then Finite (of_int n / of_nat (unat r))
      else if 0 < n then PosInf
      else if n < 0 then NegInf
      else NaN)"

text \<open>The thresholds of \<open>processSamples\<close>: 350 and 600 microseconds, in seconds.\<close>

definition ShortThreshold :: f64 where
  "ShortThreshold = Finite (350 / 1000000)"

definition LongThreshold :: f64 where
  "LongThreshold = Finite (600 / 1000000)"

datatype dstate = StateFindHeader | StateFindSync | StateReadData

text \<open>
  The local variables of \<open>processSamples\<close> that the two loops read and write;
  \<open>idx\<close> is the loop index \<open>i\<close>.
\<close>

record locals =
  idx :: nat
  state :: dstate
  headerCount :: int
  currentByte :: byte
  bitCount :: int
  decodedBytes :: "byte list"

text \<open>
  The ways \<open>Decode\<close> ends without a byte sequence: its own error returns, the two
  errors of \<open>binary.Read\<close> it passes on, and the index panic of \<open>processSamples\<close>.
\<close>

datatype error =
    OpenFailed
  | HeaderReadFailed
  | InvalidWav
  | DataChunkNotFound
  | ErrEOF
  | ErrUnexpectedEOF
  | UnsupportedBitsPerSample "16 word"
  | IndexOutOfRange

record WavHeader =
  ChunkID :: "byte list"
  ChunkSize :: "32 word"
  Format :: "byte list"
  Subchunk1ID :: "byte list"
  Subchunk1Size :: "32 word"
  AudioFormat :: "16 word"
  NumChannels :: "16 word"
  SampleRate :: "32 word"
  ByteRate :: "32 word"
  BlockAlign :: "16 word"
  BitsPerSample :: "16 word"

section \<open>Zero crossings\<close>

text \<open>
  The \<open>range\<close> loop over the samples: \<open>k\<close> is the index of the sample at the head of
  the remaining list, \<open>prevSample\<close> the sample before it.
\<close>

fun crossings_loop :: "f64 \<Rightarrow> nat \<Rightarrow> f64 list \<Rightarrow> int list \<Rightarrow> int list" where
  "crossings_loop prevSample k [] crossings = crossings"
| "crossings_loop prevSample k (sample # rest) crossings =
     crossings_loop sample (k + 1) rest
       (if (f64_lt prevSample (Finite 0) \<and> f64_ge sample (Finite 0))
           \<or> (f64_ge prevSample (Finite 0) \<and> f64_lt sample (Finite 0))
        then crossings @ [int k] else crossings)"

section \<open>The interval classification and the two passes\<close>

text \<open>Duration in seconds of the half-cycle that ends at crossing \<open>k\<close>.\<close>

definition durationSec :: "int list \<Rightarrow> 32 word \<Rightarrow> nat \<Rightarrow> f64" where
  "durationSec crossings sampleRate k =
     f64_quot (crossings ! k - crossings ! (k - 1)) sampleRate"

text \<open>The flags \<open>(isShort, isHeader)\<close> set by the if-chain at the head of both loops.\<close>

definition classify :: "f64 \<Rightarrow> bool \<times> bool" where
  "classify d =
     (if f64_lt d ShortThreshold then (True, False)
      else if f64_lt d LongThreshold then (False, False)
      else (False, True))"

text \<open>One iteration of the first loop, at index \<open>k\<close>.\<close>

definition first_pass_body :: "int list \<Rightarrow> 32 word \<Rightarrow> nat \<Rightarrow> locals \<Rightarrow> locals" where
  "first_pass_body crossings sampleRate k s =
     (let (isShort, isHeader) = classify (durationSec crossings sampleRate k)
      in case state s of
           StateFindHeader \<Rightarrow>
             if isHeader then s\<lparr>headerCount := headerCount s + 1\<rparr>
             else if headerCount s > 100 \<and> isShort then s\<lparr>state := StateFindSync\<rparr>
             else s\<lparr>headerCount := 0\<rparr>
         | StateFindSync \<Rightarrow>
             if isShort then s\<lparr>state := StateReadData, currentByte := 0, bitCount := 0\<rparr>
             else s\<lparr>state := StateFindHeader, headerCount := 0\<rparr>
         | StateReadData \<Rightarrow> s)"

definition first_pass :: "int list \<Rightarrow> 32 word \<Rightarrow> locals \<Rightarrow> locals" where
  "first_pass crossings sampleRate s =
     fold (first_pass_body crossings sampleRate) [1 ..< length crossings] s"

text \<open>
  The \<open>StateReadData\<close> case of the second loop, entered with \<open>idx\<close> already advanced
  past the first half-cycle, whose duration is \<open>dur1\<close>.
\<close>

definition read_data :: "int list \<Rightarrow> 32 word \<Rightarrow> f64 \<Rightarrow> locals \<Rightarrow> locals" where
  "read_data crossings sampleRate dur1 s =
     (if idx s \<ge> length crossings then s
      else
        let dur2 = durationSec crossings sampleRate (idx s);
            s = s\<lparr>idx := idx s + 1\<rparr>;
            isZero = (f64_lt dur1 ShortThreshold \<and> f64_lt dur2 ShortThreshold);
            isOne = ((f64_ge dur1 ShortThreshold \<and> f64_lt dur1 LongThreshold)
                     \<and> (f64_ge dur2 ShortThreshold \<and> f64_lt dur2 LongThreshold));
            s = (if isZero then
                   s\<lparr>currentByte := push_bit 1 (currentByte s), bitCount := bitCount s + 1\<rparr>
                 else if isOne then
                   s\<lparr>currentByte := push_bit 1 (currentByte s) OR 1,
                     bitCount := bitCount s + 1\<rparr>
                 else if f64_gt dur1 LongThreshold \<or> f64_gt dur2 LongThreshold then
                   s\<lparr>state := StateFindHeader, headerCount := 0\<rparr>
                 else s)
        in if bitCount s = 8 then
             s\<lparr>decodedBytes := decodedBytes s @ [currentByte s],
               currentByte := 0, bitCount := 0\<rparr>
           else s)"

text \<open>The \<open>StateFindHeader\<close> case of the second loop, \<open>idx\<close> already advanced.\<close>

definition find_header :: "int list \<Rightarrow> 32 word \<Rightarrow> f64 \<Rightarrow> locals \<Rightarrow> locals" where
  "find_header crossings sampleRate dur s =
     (let (isShort, isHeader) = classify dur
      in if isHeader \<or> (f64_gt dur ShortThreshold \<and> f64_lt dur LongThreshold) then
           s\<lparr>headerCount := headerCount s + 1\<rparr>
         else if headerCount s > 50 \<and> isShort then
           (if idx s < length crossings then
              let nextDur = durationSec crossings sampleRate (idx s)
              in if f64_lt nextDur ShortThreshold then
                   s\<lparr>state := StateReadData, currentByte := 0, bitCount := 0,
                     idx := idx s + 1\<rparr>
                 else s\<lparr>state := StateFindHeader, headerCount := 0\<rparr>
            else s)
         else s\<lparr>headerCount := 0\<rparr>)"

text \<open>
  One iteration of the second loop. Its \<open>switch\<close> has no case for \<open>StateFindSync\<close>;
  a \<open>break\<close> inside a case leaves the \<open>switch\<close> only.
\<close>

definition loop_body :: "int list \<Rightarrow> 32 word \<Rightarrow> locals \<Rightarrow> locals" where
  "loop_body crossings sampleRate s =
     (let dur = durationSec crossings sampleRate (idx s);
          s = s\<lparr>idx := idx s + 1\<rparr>
      in case state s of
           StateFindHeader \<Rightarrow> find_header crossings sampleRate dur s
         | StateFindSync \<Rightarrow> s
         | StateReadData \<Rightarrow> read_data crossings sampleRate dur s)"

text \<open>Every iteration of the second loop advances the index, so the loop ends.\<close>

lemma idx_find_header: "idx s \<le> idx (find_header crossings sampleRate dur s)"
  by (simp add: find_header_def Let_def split: prod.splits)

lemma idx_read_data: "idx s \<le> idx (read_data crossings sampleRate dur s)"
  by (simp add: read_data_def Let_def)

lemma idx_loop_body: "idx s < idx (loop_body crossings sampleRate s)"
proof (cases "state s")
  case StateFindHeader
  then show ?thesis
    using idx_find_header [of "s\<lparr>idx := idx s + 1\<rparr>" crossings sampleRate]
    by (simp add: loop_body_def Let_def less_eq_Suc_le)
next
  case StateFindSync
  then show ?thesis by (simp add: loop_body_def Let_def)
next
  case StateReadData
  then show ?thesis
    using idx_read_data [of "s\<lparr>idx := idx s + 1\<rparr>" crossings sampleRate]
    by (simp add: loop_body_def Let_def less_eq_Suc_le)
qed

function demod_loop :: "int list \<Rightarrow> 32 word \<Rightarrow> locals \<Rightarrow> locals" where
  "demod_loop crossings sampleRate s =
     (if idx s < length crossings
      then demod_loop crossings sampleRate (loop_body crossings sampleRate s)
      else s)"
  by pat_completeness auto
termination
proof (relation "measure (\<lambda>(crossings, sampleRate, s). length crossings - idx s)")
  show "wf (measure (\<lambda>(crossings, sampleRate, s). length crossings - idx s))"
    by simp
next
  fix crossings :: "int list" and sampleRate :: "32 word" and s :: locals
  assume "idx s < length crossings"
  then show "((crossings, sampleRate, loop_body crossings sampleRate s),
              (crossings, sampleRate, s))
             \<in> measure (\<lambda>(crossings, sampleRate, s). length crossings - idx s)"
    using idx_loop_body [of s crossings sampleRate] by simp
qed

declare demod_loop.simps [simp del]

text \<open>
  \<open>processSamples\<close>: reading \<open>samples[0]\<close> of an empty slice is a run-time panic.
\<close>

definition init_locals :: locals where
  "init_locals =
     \<lparr>idx = 1, state = StateFindHeader, headerCount = 0, currentByte = 0, bitCount = 0,
      decodedBytes = []\<rparr>"

definition processSamples :: "f64 list \<Rightarrow> 32 word \<Rightarrow> error + byte list" where
  "processSamples samples sampleRate =
     (case samples of
        [] \<Rightarrow> Inl IndexOutOfRange
      | prevSample # _ \<Rightarrow>
          let crossings = crossings_loop prevSample 0 samples [];
              s = first_pass crossings sampleRate init_locals;
              s = s\<lparr>idx := 1, state := StateFindHeader, headerCount := 0\<rparr>
          in Inr (decodedBytes (demod_loop crossings sampleRate s)))"

section \<open>The WAV container and the sample extraction\<close>

text \<open>
  The file is the list of its bytes. \<open>binary.Read\<close> reads a value of \<open>n\<close> bytes
  at the current offset, little-endian; it fails with \<open>io.EOF\<close> when no byte is
  left and with \<open>io.ErrUnexpectedEOF\<close> when fewer than \<open>n\<close> are.
\<close>

definition bytes_at :: "byte list \<Rightarrow> nat \<Rightarrow> nat \<Rightarrow> byte list" where
  "bytes_at f off n = take n (drop off f)"

definition le16 :: "byte list \<Rightarrow> 16 word" where
  "le16 bs = ucast (bs ! 0) OR push_bit 8 (ucast (bs ! 1))"

definition le32 :: "byte list \<Rightarrow> 32 word" where
  "le32 bs = ucast (bs ! 0) OR push_bit 8 (ucast (bs ! 1))
             OR push_bit 16 (ucast (bs ! 2)) OR push_bit 24 (ucast (bs ! 3))"

text \<open>The 36 bytes of \<open>WavHeader\<close>, read in one \<open>binary.Read\<close>.\<close>

definition read_header :: "byte list \<Rightarrow> WavHeader option" where
  "read_header f =
     (if length f < 36 then None
      else Some \<lparr>ChunkID = bytes_at f 0 4, ChunkSize = le32 (bytes_at f 4 4),
                 Format = bytes_at f 8 4, Subchunk1ID = bytes_at f 12 4,
                 Subchunk1Size = le32 (bytes_at f 16 4),
                 AudioFormat = le16 (bytes_at f 20 2),
                 NumChannels = le16 (bytes_at f 22 2),
                 SampleRate = le32 (bytes_at f 24 4),
                 ByteRate = le32 (bytes_at f 28 4),
                 BlockAlign = le16 (bytes_at f 32 2),
                 BitsPerSample = le16 (bytes_at f 34 2)\<rparr>)"

text \<open>The tags \<open>"RIFF"\<close>, \<open>"WAVE"\<close> and \<open>"data"\<close> as bytes.\<close>

definition RIFF :: "byte list" where
  "RIFF = [0x52, 0x49, 0x46, 0x46]"

definition WAVE :: "byte list" where
  "WAVE = [0x57, 0x41, 0x56, 0x45]"

definition data_tag :: "byte list" where
  "data_tag = [0x64, 0x61, 0x74, 0x61]"

text \<open>
  The search for the data chunk from offset \<open>pos\<close>; the result is the offset of the
  first PCM byte. Seeking past the end of a file succeeds, the next read then finds
  no byte.
\<close>

function find_data_chunk :: "byte list \<Rightarrow> nat \<Rightarrow> error + nat" where
  "find_data_chunk f pos =
     (if length f \<le> pos then Inl DataChunkNotFound
      else if length f < pos + 4 then Inl ErrUnexpectedEOF
      else if length f = pos + 4 then Inl ErrEOF
      else if length f < pos + 8 then Inl ErrUnexpectedEOF
      else if bytes_at f pos 4 = data_tag then Inr (pos + 8)
      else find_data_chunk f (pos + 8 + unat (le32 (bytes_at f (pos + 4) 4))))"
  by pat_completeness auto
termination
  by (relation "measure (\<lambda>(f, pos). length f - pos)") auto

declare find_data_chunk.simps [simp del]

text \<open>
  The 8-bit path. \<open>f.Read\<close> on a file fills the 1024-byte buffer as far as bytes are
  left and reports the end of the file with \<open>n = 0\<close>. The inner loop steps by the
  channel count and does not end when that count is 0.
\<close>

partial_function (option) block8_loop ::
  "byte list \<Rightarrow> nat \<Rightarrow> nat \<Rightarrow> nat \<Rightarrow> f64 list \<Rightarrow> f64 list option" where
  "block8_loop buf n numChannels i samples =
     (if i < n then
        block8_loop buf n numChannels (i + numChannels)
          (samples @ [Finite ((of_nat (unat (buf ! i)) - 128) / 128)])
      else Some samples)"

function read_samples8 :: "byte list \<Rightarrow> nat \<Rightarrow> f64 list \<Rightarrow> f64 list option" where
  "read_samples8 pcm numChannels samples =
     (if pcm = [] then Some samples
      else case block8_loop (take 1024 pcm) (min 1024 (length pcm)) numChannels 0 samples of
             None \<Rightarrow> None
           | Some samples' \<Rightarrow> read_samples8 (drop 1024 pcm) numChannels samples')"
  by pat_completeness auto
termination
  by (relation "measure (\<lambda>(pcm, numChannels, samples). length pcm)") auto

declare read_samples8.simps [simp del]

text \<open>
  The 16-bit path. \<open>binary.Read\<close> into the 1024-element \<open>int16\<close> buffer needs 2048
  bytes; with fewer left it fails, the loop ends and those bytes are not used.
\<close>

fun int16s_le :: "byte list \<Rightarrow> 16 word list" where
  "int16s_le (lo # hi # rest) = le16 [lo, hi] # int16s_le rest"
| "int16s_le rest = []"

partial_function (option) block16_loop ::
  "16 word list \<Rightarrow> nat \<Rightarrow> nat \<Rightarrow> f64 list \<Rightarrow> f64 list option" where
  "block16_loop buf numChannels i samples =
     (if i < length buf then
        block16_loop buf numChannels (i + numChannels)
          (if i < length buf then samples @ [Finite (of_int (sint (buf ! i)) / 32768)]
           else samples)
      else Some samples)"

function read_samples16 :: "byte list \<Rightarrow> nat \<Rightarrow> f64 list \<Rightarrow> f64 list option" where
  "read_samples16 pcm numChannels samples =
     (if length pcm < 2048 then Some samples
      else case block16_loop (int16s_le (take 2048 pcm)) numChannels 0 samples of
             None \<Rightarrow> None
           | Some samples' \<Rightarrow> read_samples16 (drop 2048 pcm) numChannels samples')"
  by pat_completeness auto
termination
  by (relation "measure (\<lambda>(pcm, numChannels, samples). length pcm)") auto

declare read_samples16.simps [simp del]

text \<open>
  \<open>Decode\<close>, on the content of the named file (\<open>None\<close> when it cannot be opened).
  The result \<open>None\<close> stands for a run that does not return.
\<close>

definition Decode :: "byte list option \<Rightarrow> (error + byte list) option" where
  "Decode file =
     (case file of
        None \<Rightarrow> Some (Inl OpenFailed)
      | Some f \<Rightarrow>
          (case read_header f of
             None \<Rightarrow> Some (Inl HeaderReadFailed)
           | Some header \<Rightarrow>
               if ChunkID header \<noteq> RIFF \<or> Format header \<noteq> WAVE then
                 Some (Inl InvalidWav)
               else
                 (case find_data_chunk f 36 of
                    Inl e \<Rightarrow> Some (Inl e)
                  | Inr pos \<Rightarrow>
                      if BitsPerSample header = 8 then
                        (case read_samples8 (drop pos f) (unat (NumChannels header)) [] of
                           None \<Rightarrow> None
                         | Some samples \<Rightarrow>
                             Some (processSamples samples (SampleRate header)))
                      else if BitsPerSample header = 16 then
                        (case read_samples16 (drop pos f) (unat (NumChannels header)) [] of
                           None \<Rightarrow> None
                         | Some samples \<Rightarrow>
                             Some (processSamples samples (SampleRate header)))
                      else
                        Some (Inl (UnsupportedBitsPerSample (BitsPerSample header))))))"

section \<open>Notions used to state the properties\<close>

text \<open>
  The single-pass decoder the design notes ask for: \<open>processSamples\<close> without its
  first loop, the second loop started from freshly initialised locals.
\<close>

definition processSamples_single_pass :: "f64 list \<Rightarrow> 32 word \<Rightarrow> error + byte list" where
  "processSamples_single_pass samples sampleRate =
     (case samples of
        [] \<Rightarrow> Inl IndexOutOfRange
      | prevSample # _ \<Rightarrow>
          let crossings = crossings_loop prevSample 0 samples []
          in Inr (decodedBytes (demod_loop crossings sampleRate init_locals)))"

text \<open>
  The three tone categories as values of the flags \<open>(isShort, isHeader)\<close>, and the
  categories of the consecutive intervals of a crossing sequence.
\<close>

abbreviation Short :: "bool \<times> bool" where
  "Short \<equiv> (True, False)"

abbreviation Medium :: "bool \<times> bool" where
  "Medium \<equiv> (False, False)"

abbreviation Long :: "bool \<times> bool" where
  "Long \<equiv> (False, True)"

definition tones :: "int list \<Rightarrow> 32 word \<Rightarrow> (bool \<times> bool) list" where
  "tones crossings sampleRate =
     map (\<lambda>k. classify (durationSec crossings sampleRate k)) [1 ..< length crossings]"

text \<open>
  A data bit is a pair of half-cycles of one category: Medium twice for 1, Short twice
  for 0. \<open>encodes_bits crossings sampleRate k bs\<close>: the intervals from index \<open>k\<close> on
  encode the bits \<open>bs\<close>, first bit first.
\<close>

definition tone_of_bit :: "bool \<Rightarrow> bool \<times> bool" where
  "tone_of_bit b = (if b then Medium else Short)"

fun encodes_bits :: "int list \<Rightarrow> 32 word \<Rightarrow> nat \<Rightarrow> bool list \<Rightarrow> bool" where
  "encodes_bits crossings sampleRate k [] = True"
| "encodes_bits crossings sampleRate k (b # bs) =
     (classify (durationSec crossings sampleRate k) = tone_of_bit b
      \<and> classify (durationSec crossings sampleRate (k + 1)) = tone_of_bit b
      \<and> encodes_bits crossings sampleRate (k + 2) bs)"

text \<open>Shifting one bit into the byte in progress, as both bit branches do.\<close>

definition shift_in :: "byte \<Rightarrow> bool \<Rightarrow> byte" where
  "shift_in w b = push_bit 1 w OR of_bool b"

text \<open>
  The states of the locals at the head of the second loop: \<open>steps crossings sampleRate
  s s'\<close> when the loop, at its head with locals \<open>s\<close>, is later at its head with \<open>s'\<close>.
\<close>

inductive steps :: "int list \<Rightarrow> 32 word \<Rightarrow> locals \<Rightarrow> locals \<Rightarrow> bool"
  for crossings sampleRate where
    steps_refl: "steps crossings sampleRate s s"
  | steps_iter: "idx s < length crossings \<Longrightarrow>
       steps crossings sampleRate (loop_body crossings sampleRate s) s' \<Longrightarrow>
       steps crossings sampleRate s s'"

text \<open>What one iteration may do to the bit accumulator and the output.\<close>

definition acc_unchanged :: "locals \<Rightarrow> locals \<Rightarrow> bool" where
  "acc_unchanged s s' \<longleftrightarrow>
     currentByte s' = currentByte s \<and> bitCount s' = bitCount s
     \<and> decodedBytes s' = decodedBytes s"

definition acc_cleared :: "locals \<Rightarrow> locals \<Rightarrow> bool" where
  "acc_cleared s s' \<longleftrightarrow>
     currentByte s' = 0 \<and> bitCount s' = 0 \<and> decodedBytes s' = decodedBytes s"

definition acc_bit :: "bool \<Rightarrow> locals \<Rightarrow> locals \<Rightarrow> bool" where
  "acc_bit b s s' \<longleftrightarrow>
     (if bitCount s + 1 = 8
      then currentByte s' = 0 \<and> bitCount s' = 0
           \<and> decodedBytes s' = decodedBytes s @ [shift_in (currentByte s) b]
      else currentByte s' = shift_in (currentByte s) b \<and> bitCount s' = bitCount s + 1
           \<and> decodedBytes s' = decodedBytes s)"

text \<open>
  Crossing sequences given by their interval lengths in samples. At 20000 samples per
  second 4 samples are 200 microseconds, 7 are 350, 8 are 400, 10 are 500 and 12 are
  600.
\<close>

fun crossings_from :: "int \<Rightarrow> int list \<Rightarrow> int list" where
  "crossings_from c [] = [c]"
| "crossings_from c (d # ds) = c # crossings_from (c + d) ds"

definition message_crossings :: "int list" where
  "message_crossings =
     crossings_from 1 (replicate 60 10 @ [4, 4]
       @ [10, 10, 4, 4, 10, 10, 10, 10, 4, 4, 4, 4, 10, 10, 4, 4])"

definition long_pair_crossings :: "int list" where
  "long_pair_crossings =
     crossings_from 1 (replicate 60 10 @ [4, 4]
       @ [10, 10, 4, 4, 10, 10] @ [12, 12] @ [10, 10, 4, 4, 4, 4, 10, 10, 4, 4])"

text \<open>
  Two 44-byte WAV files with no PCM data, mono at 20000 samples per second: one
  declares 24 bits per sample, the other 8.
\<close>

definition wav_prefix :: "byte list" where
  "wav_prefix = RIFF @ [36, 0, 0, 0] @ WAVE @ [0x66, 0x6D, 0x74, 0x20, 16, 0, 0, 0,
     1, 0, 1, 0, 0x20, 0x4E, 0, 0]"

definition wav24_file :: "byte list" where
  "wav24_file = wav_prefix @ [0x60, 0xEA, 0, 0, 3, 0, 24, 0] @ data_tag @ [0, 0, 0, 0]"

definition wav8_file :: "byte list" where
  "wav8_file = wav_prefix @ [0x20, 0x4E, 0, 0, 1, 0, 8, 0] @ data_tag @ [0, 0, 0, 0]"

text \<open>The first of them cut after its 36 header bytes: no chunk follows.\<close>

definition wav24_no_data_file :: "byte list" where
  "wav24_no_data_file = wav_prefix @ [0x60, 0xEA, 0, 0, 3, 0, 24, 0]"

section \<open>Basic facts about the loops\<close>

lemma demod_loop_done:
  "\<not> idx s < length crossings \<Longrightarrow> demod_loop crossings sampleRate s = s"
  by (simp add: demod_loop.simps)

lemma demod_loop_step:
  "idx s < length crossings \<Longrightarrow>
   demod_loop crossings sampleRate s =
     demod_loop crossings sampleRate (loop_body crossings sampleRate s)"
  by (subst demod_loop.simps) simp

lemma demod_loop_exhausts:
  "\<not> idx (demod_loop crossings sampleRate s) < length crossings"
proof (induction crossings sampleRate s rule: demod_loop.induct)
  case (1 crossings sampleRate s)
  show ?case
  proof (cases "idx s < length crossings")
    case True
    with "1.IH" show ?thesis by (simp add: demod_loop_step)
  next
    case False
    then show ?thesis by (simp add: demod_loop_done)
  qed
qed

lemma steps_trans:
  "steps crossings sampleRate s s' \<Longrightarrow> steps crossings sampleRate s' s'' \<Longrightarrow>
   steps crossings sampleRate s s''"
  by (induction rule: steps.induct) (auto intro: steps.intros)

lemma steps_body:
  "idx s < length crossings \<Longrightarrow>
   steps crossings sampleRate s (loop_body crossings sampleRate s)"
  by (rule steps_iter [OF _ steps_refl])

lemma steps_demod_loop:
  "steps crossings sampleRate s s' \<Longrightarrow>
   demod_loop crossings sampleRate s = demod_loop crossings sampleRate s'"
  by (induction rule: steps.induct) (simp_all add: demod_loop_step)

lemma steps_final: "steps crossings sampleRate s (demod_loop crossings sampleRate s)"
proof (induction crossings sampleRate s rule: demod_loop.induct)
  case (1 crossings sampleRate s)
  show ?case
  proof (cases "idx s < length crossings")
    case True
    then have "steps crossings sampleRate (loop_body crossings sampleRate s)
                 (demod_loop crossings sampleRate (loop_body crossings sampleRate s))"
      by (rule "1.IH")
    with True show ?thesis
      by (simp add: demod_loop_step steps_iter)
  next
    case False
    then show ?thesis by (simp add: demod_loop_done steps_refl)
  qed
qed

lemma steps_complete_unique:
  assumes "steps crossings sampleRate s s'" and "\<not> idx s' < length crossings"
  shows "s' = demod_loop crossings sampleRate s"
proof -
  have "demod_loop crossings sampleRate s = demod_loop crossings sampleRate s'"
    using assms(1) by (rule steps_demod_loop)
  also have "\<dots> = s'" using assms(2) by (rule demod_loop_done)
  finally show ?thesis by simp
qed

subsection \<open>The classification\<close>

lemma classify_Finite:
  "classify (Finite q) =
     (if q < 350 / 1000000 then Short
      else if q < 600 / 1000000 then Medium
      else Long)"
  unfolding classify_def ShortThreshold_def LongThreshold_def f64_lt.simps by (rule refl)

lemma durationSec_Finite:
  "sampleRate \<noteq> 0 \<Longrightarrow>
   durationSec crossings sampleRate k =
     Finite (of_int (crossings ! k - crossings ! (k - 1)) / of_nat (unat sampleRate))"
  by (simp only: durationSec_def f64_quot_def if_True if_False simp_thms)

lemma classify_Short: "classify d = Short \<longleftrightarrow> f64_lt d ShortThreshold"
  by (simp add: classify_def)

lemma classify_Medium:
  "classify d = Medium \<longleftrightarrow> f64_ge d ShortThreshold \<and> f64_lt d LongThreshold"
  by (cases d) (auto simp add: classify_def f64_ge_def ShortThreshold_def LongThreshold_def)

lemma medium_strict_header_tone:
  "classify d = Medium \<Longrightarrow> f64_gt d ShortThreshold \<Longrightarrow>
   classify d = Long \<or> (f64_gt d ShortThreshold \<and> f64_lt d LongThreshold)"
  by (simp add: classify_Medium)

lemma length_tones: "length (tones crossings sampleRate) = length crossings - 1"
  by (simp add: tones_def)

lemma tones_nth:
  "1 \<le> k \<Longrightarrow> k < length crossings \<Longrightarrow>
   classify (durationSec crossings sampleRate k) = tones crossings sampleRate ! (k - 1)"
proof -
  assume k: "1 \<le> k" "k < length crossings"
  then have "1 + (k - 1) < length crossings" by simp
  then have "[1 ..< length crossings] ! (k - 1) = 1 + (k - 1)"
    by (rule nth_upt)
  with k show ?thesis by (simp add: tones_def)
qed

subsection \<open>Crossing sequences built from interval lengths\<close>

lemma length_crossings_from: "length (crossings_from c ds) = length ds + 1"
  by (induction ds arbitrary: c) simp_all

lemma nth_crossings_from:
  "k \<le> length ds \<Longrightarrow> crossings_from c ds ! k = c + sum_list (take k ds)"
proof (induction ds arbitrary: c k)
  case Nil
  then show ?case by simp
next
  case (Cons d ds)
  show ?case
  proof (cases k)
    case 0
    then show ?thesis by simp
  next
    case (Suc j)
    with Cons.prems have "j \<le> length ds" by simp
    then have "crossings_from (c + d) ds ! j = c + d + sum_list (take j ds)"
      by (rule Cons.IH)
    with Suc show ?thesis by simp
  qed
qed

lemma durationSec_crossings_from:
  assumes "1 \<le> k" and "k \<le> length ds"
  shows "durationSec (crossings_from c ds) sampleRate k = f64_quot (ds ! (k - 1)) sampleRate"
proof -
  obtain j where k: "k = Suc j" using assms(1) by (cases k) auto
  with assms(2) have j: "j < length ds" by simp
  have "take (Suc j) ds = take j ds @ [ds ! j]"
    using j by (rule take_Suc_conv_app_nth)
  then have "sum_list (take (Suc j) ds) = sum_list (take j ds) + ds ! j" by simp
  moreover have "crossings_from c ds ! Suc j = c + sum_list (take (Suc j) ds)"
    using j by (simp only: nth_crossings_from Suc_leI)
  moreover have "crossings_from c ds ! j = c + sum_list (take j ds)"
    using j by (simp only: nth_crossings_from less_imp_le)
  ultimately show ?thesis
    unfolding durationSec_def k by simp
qed

lemma tones_crossings_from:
  "tones (crossings_from c ds) sampleRate = map (\<lambda>d. classify (f64_quot d sampleRate)) ds"
proof (rule nth_equalityI)
  show "length (tones (crossings_from c ds) sampleRate)
        = length (map (\<lambda>d. classify (f64_quot d sampleRate)) ds)"
    by (simp add: length_tones length_crossings_from)
next
  fix i
  assume "i < length (tones (crossings_from c ds) sampleRate)"
  then have i: "i < length ds" by (simp add: length_tones length_crossings_from)
  then have "tones (crossings_from c ds) sampleRate ! (Suc i - 1)
             = classify (durationSec (crossings_from c ds) sampleRate (Suc i))"
    by (subst tones_nth) (simp_all add: length_crossings_from)
  also have "durationSec (crossings_from c ds) sampleRate (Suc i)
             = f64_quot (ds ! (Suc i - 1)) sampleRate"
    using i by (intro durationSec_crossings_from) simp_all
  finally show "tones (crossings_from c ds) sampleRate ! i
                = map (\<lambda>d. classify (f64_quot d sampleRate)) ds ! i"
    using i by simp
qed

lemma classify_at_20000:
  "classify (f64_quot 4 20000) = Short"
  "classify (f64_quot 7 20000) = Medium"
  "classify (f64_quot 8 20000) = Medium"
  "classify (f64_quot 10 20000) = Medium"
  "classify (f64_quot 12 20000) = Long"
  by (simp_all add: classify_def f64_quot_def ShortThreshold_def LongThreshold_def)

subsection \<open>Single iterations of the second loop\<close>

lemma header_tone_step:
  assumes "state s = StateFindHeader"
    and "classify (durationSec crossings sampleRate (idx s)) = Long
         \<or> (f64_gt (durationSec crossings sampleRate (idx s)) ShortThreshold
            \<and> f64_lt (durationSec crossings sampleRate (idx s)) LongThreshold)"
  shows "loop_body crossings sampleRate s =
           s\<lparr>idx := idx s + 1, headerCount := headerCount s + 1\<rparr>"
  using assms by (auto simp add: loop_body_def find_header_def Let_def split: prod.splits)

lemma sync_step:
  assumes "state s = StateFindHeader" and "headerCount s > 50"
    and "idx s + 1 < length crossings"
    and "classify (durationSec crossings sampleRate (idx s)) = Short"
    and "classify (durationSec crossings sampleRate (idx s + 1)) = Short"
  shows "loop_body crossings sampleRate s =
           s\<lparr>idx := idx s + 2, state := StateReadData, currentByte := 0, bitCount := 0\<rparr>"
proof -
  have a: "f64_lt (durationSec crossings sampleRate (idx s)) ShortThreshold"
    using assms(4) by (simp add: classify_Short)
  have "\<not> f64_gt (durationSec crossings sampleRate (idx s)) ShortThreshold"
    using a by (cases "durationSec crossings sampleRate (idx s)")
      (auto simp: f64_gt_def ShortThreshold_def)
  moreover have b: "f64_lt (durationSec crossings sampleRate (Suc (idx s))) ShortThreshold"
    using assms(5) by (simp add: classify_Short)
  ultimately show ?thesis
    using assms(1-4) by (simp add: loop_body_def find_header_def Let_def)
qed

lemma read_bit_step:
  assumes "state s = StateReadData"
    and "idx s + 1 < length crossings"
    and "classify (durationSec crossings sampleRate (idx s)) = tone_of_bit b"
    and "classify (durationSec crossings sampleRate (idx s + 1)) = tone_of_bit b"
  shows "loop_body crossings sampleRate s =
           (if bitCount s + 1 = 8 then
              s\<lparr>idx := idx s + 2,
                decodedBytes := decodedBytes s @ [shift_in (currentByte s) b],
                currentByte := 0, bitCount := 0\<rparr>
            else
              s\<lparr>idx := idx s + 2,
                currentByte := shift_in (currentByte s) b,
                bitCount := bitCount s + 1\<rparr>)"
proof (cases b)
  case True
  with assms(3,4) have
    "f64_ge (durationSec crossings sampleRate (idx s)) ShortThreshold"
    "f64_lt (durationSec crossings sampleRate (idx s)) LongThreshold"
    "f64_ge (durationSec crossings sampleRate (Suc (idx s))) ShortThreshold"
    "f64_lt (durationSec crossings sampleRate (Suc (idx s))) LongThreshold"
    by (simp_all add: classify_Medium tone_of_bit_def)
  moreover from True assms(3)
  have "\<not> f64_lt (durationSec crossings sampleRate (idx s)) ShortThreshold"
    by (simp add: classify_def tone_of_bit_def split: if_splits)
  ultimately show ?thesis
    using assms(1,2) True by (simp add: loop_body_def read_data_def Let_def shift_in_def)
next
  case False
  with assms(3,4) have
    "f64_lt (durationSec crossings sampleRate (idx s)) ShortThreshold"
    "f64_lt (durationSec crossings sampleRate (Suc (idx s))) ShortThreshold"
    by (simp_all add: classify_Short tone_of_bit_def)
  then show ?thesis
    using assms(1,2) False by (simp add: loop_body_def read_data_def Let_def shift_in_def)
qed

subsection \<open>Runs of iterations\<close>

lemma header_run:
  assumes "state s = StateFindHeader" and "idx s + n \<le> length crossings"
    and "\<And>k. idx s \<le> k \<Longrightarrow> k < idx s + n \<Longrightarrow>
           classify (durationSec crossings sampleRate k) = Long
           \<or> (f64_gt (durationSec crossings sampleRate k) ShortThreshold
              \<and> f64_lt (durationSec crossings sampleRate k) LongThreshold)"
  shows "steps crossings sampleRate s
           (s\<lparr>idx := idx s + n, headerCount := headerCount s + int n\<rparr>)"
  using assms
proof (induction n arbitrary: s)
  case 0
  then show ?case by (simp add: steps_refl)
next
  case (Suc n)
  let ?s' = "s\<lparr>idx := idx s + 1, headerCount := headerCount s + 1\<rparr>"
  have "classify (durationSec crossings sampleRate (idx s)) = Long
        \<or> (f64_gt (durationSec crossings sampleRate (idx s)) ShortThreshold
           \<and> f64_lt (durationSec crossings sampleRate (idx s)) LongThreshold)"
    by (rule Suc.prems(3)) simp_all
  with Suc.prems(1) have body: "loop_body crossings sampleRate s = ?s'"
    by (rule header_tone_step)
  have lt: "idx s < length crossings" using Suc.prems(2) by simp
  have "steps crossings sampleRate ?s'
          (?s'\<lparr>idx := idx ?s' + n, headerCount := headerCount ?s' + int n\<rparr>)"
  proof (rule Suc.IH)
    show "state ?s' = StateFindHeader" using Suc.prems(1) by simp
    show "idx ?s' + n \<le> length crossings" using Suc.prems(2) by simp
    fix k assume "idx ?s' \<le> k" "k < idx ?s' + n"
    then show "classify (durationSec crossings sampleRate k) = Long
        \<or> (f64_gt (durationSec crossings sampleRate k) ShortThreshold
           \<and> f64_lt (durationSec crossings sampleRate k) LongThreshold)"
      by (intro Suc.prems(3)) simp_all
  qed
  then have "steps crossings sampleRate (loop_body crossings sampleRate s)
          (s\<lparr>idx := idx s + Suc n, headerCount := headerCount s + int (Suc n)\<rparr>)"
    by (simp add: body add.assoc)
  with lt show ?case by (rule steps_iter)
qed

lemma read_bits_run:
  assumes "state s = StateReadData"
    and "bitCount s + int (length bs) < 8"
    and "idx s + 2 * length bs \<le> length crossings"
    and "encodes_bits crossings sampleRate (idx s) bs"
  shows "steps crossings sampleRate s
           (s\<lparr>idx := idx s + 2 * length bs,
              currentByte := foldl shift_in (currentByte s) bs,
              bitCount := bitCount s + int (length bs)\<rparr>)"
  using assms
proof (induction bs arbitrary: s)
  case Nil
  then show ?case by (simp add: steps_refl)
next
  case (Cons b bs)
  let ?s' = "s\<lparr>idx := idx s + 2, currentByte := shift_in (currentByte s) b,
                bitCount := bitCount s + 1\<rparr>"
  have p: "classify (durationSec crossings sampleRate (idx s)) = tone_of_bit b"
    "classify (durationSec crossings sampleRate (idx s + 1)) = tone_of_bit b"
    "encodes_bits crossings sampleRate (idx s + 2) bs"
    using Cons.prems(4) by simp_all
  have lt: "idx s + 1 < length crossings" using Cons.prems(3) by simp
  have "bitCount s + 1 \<noteq> 8" using Cons.prems(2) by simp
  then have body: "loop_body crossings sampleRate s = ?s'"
    using read_bit_step [OF Cons.prems(1) lt p(1) p(2)] by simp
  have "steps crossings sampleRate ?s'
       (?s'\<lparr>idx := idx ?s' + 2 * length bs,
            currentByte := foldl shift_in (currentByte ?s') bs,
            bitCount := bitCount ?s' + int (length bs)\<rparr>)"
  proof (rule Cons.IH)
    show "state ?s' = StateReadData" using Cons.prems(1) by simp
    show "bitCount ?s' + int (length bs) < 8" using Cons.prems(2) by simp
    show "idx ?s' + 2 * length bs \<le> length crossings" using Cons.prems(3) by simp
    show "encodes_bits crossings sampleRate (idx ?s') bs" using p(3) by simp
  qed
  then have "steps crossings sampleRate (loop_body crossings sampleRate s)
       (s\<lparr>idx := idx s + 2 * length (b # bs),
          currentByte := foldl shift_in (currentByte s) (b # bs),
          bitCount := bitCount s + int (length (b # bs))\<rparr>)"
    by (simp add: body add.assoc)
  moreover have "idx s < length crossings" using lt by simp
  ultimately show ?case by (rule steps_iter [rotated])
qed

lemma encodes_bits_append:
  "encodes_bits crossings sampleRate k (xs @ ys) \<longleftrightarrow>
     encodes_bits crossings sampleRate k xs
     \<and> encodes_bits crossings sampleRate (k + 2 * length xs) ys"
  by (induction xs arbitrary: k) (simp_all add: add.assoc)

lemma read_byte_run:
  assumes st: "state s = StateReadData"
    and bc: "bitCount s = 0"
    and len: "length bs = 8"
    and ix: "idx s + 16 \<le> length crossings"
    and enc: "encodes_bits crossings sampleRate (idx s) bs"
  shows "steps crossings sampleRate s
           (s\<lparr>idx := idx s + 16,
              decodedBytes := decodedBytes s @ [foldl shift_in (currentByte s) bs],
              currentByte := 0, bitCount := 0\<rparr>)"
proof -
  let ?bs = "take 7 bs"
  let ?s1 = "s\<lparr>idx := idx s + 2 * length ?bs,
              currentByte := foldl shift_in (currentByte s) ?bs,
              bitCount := bitCount s + int (length ?bs)\<rparr>"
  have l7: "length ?bs = 7" using len by simp
  have bs: "bs = ?bs @ [bs ! 7]"
    using len take_Suc_conv_app_nth [of 7 bs] by simp
  have "encodes_bits crossings sampleRate (idx s) (?bs @ [bs ! 7])"
    using enc bs by simp
  then have e7: "encodes_bits crossings sampleRate (idx s) ?bs"
    and e1: "encodes_bits crossings sampleRate (idx s + 2 * length ?bs) [bs ! 7]"
    by (simp_all only: encodes_bits_append)
  have first: "steps crossings sampleRate s ?s1"
  proof (rule read_bits_run [OF st _ _ e7])
    show "bitCount s + int (length ?bs) < 8" using bc l7 by simp
    show "idx s + 2 * length ?bs \<le> length crossings" using ix l7 by simp
  qed
  have "loop_body crossings sampleRate ?s1 =
           (if bitCount ?s1 + 1 = 8 then
              ?s1\<lparr>idx := idx ?s1 + 2,
                decodedBytes := decodedBytes ?s1 @ [shift_in (currentByte ?s1) (bs ! 7)],
                currentByte := 0, bitCount := 0\<rparr>
            else
              ?s1\<lparr>idx := idx ?s1 + 2,
                currentByte := shift_in (currentByte ?s1) (bs ! 7),
                bitCount := bitCount ?s1 + 1\<rparr>)"
  proof (rule read_bit_step)
    show "state ?s1 = StateReadData" using st by simp
    show "idx ?s1 + 1 < length crossings" using ix l7 by simp
    show "classify (durationSec crossings sampleRate (idx ?s1)) = tone_of_bit (bs ! 7)"
      using e1 by simp
    show "classify (durationSec crossings sampleRate (idx ?s1 + 1)) = tone_of_bit (bs ! 7)"
      using e1 by simp
  qed
  moreover have "bitCount ?s1 + 1 = 8" using bc l7 by simp
  moreover have "foldl shift_in (currentByte s) bs
          = shift_in (foldl shift_in (currentByte s) ?bs) (bs ! 7)"
    by (subst bs) (simp only: foldl_append foldl.simps)
  ultimately have "loop_body crossings sampleRate ?s1 =
      s\<lparr>idx := idx s + 16,
        decodedBytes := decodedBytes s @ [foldl shift_in (currentByte s) bs],
        currentByte := 0, bitCount := 0\<rparr>"
    using l7 by simp
  moreover have "idx ?s1 < length crossings" using ix l7 by simp
  ultimately have "steps crossings sampleRate ?s1
      (s\<lparr>idx := idx s + 16,
        decodedBytes := decodedBytes s @ [foldl shift_in (currentByte s) bs],
        currentByte := 0, bitCount := 0\<rparr>)"
    using steps_body [of ?s1 crossings sampleRate] by simp
  with first show ?thesis by (rule steps_trans)
qed

subsection \<open>The byte assembled from eight bits\<close>

lemma bit_shift_in:
  "bit (shift_in w b) n \<longleftrightarrow> (if n = 0 then b else n < 8 \<and> bit w (n - 1))"
proof -
  have "bit (push_bit 1 w OR of_bool b) n
        \<longleftrightarrow> (1 \<le> n \<and> n < 8 \<and> bit w (n - 1)) \<or> (b \<and> n = 0)"
    by (simp only: bit_or_iff bit_push_bit_iff bit_of_bool_iff possible_bit_word)
       (auto dest: bit_imp_le_length)
  then show ?thesis by (auto simp only: shift_in_def split: if_splits)
qed

lemma bit_foldl_shift_in:
  "bit (foldl shift_in w bs) n \<longleftrightarrow>
     n < 8 \<and> (if n < length bs then rev bs ! n else bit w (n - length bs))"
proof (induction bs arbitrary: w)
  case Nil
  then show ?case by (auto dest: bit_imp_le_length)
next
  case (Cons b bs)
  show ?case
    by (auto simp add: Cons.IH bit_shift_in nth_append Suc_diff_le)
qed

lemma byte_msb_first:
  assumes "length bs = 8" and "j < 8"
  shows "bit (foldl shift_in w bs) (7 - j) \<longleftrightarrow> bs ! j"
proof -
  have a: "7 - j < length bs" using assms by arith
  then have "rev bs ! (7 - j) = bs ! (length bs - Suc (7 - j))"
    by (rule rev_nth)
  also have "length bs - Suc (7 - j) = j" using assms by arith
  finally have "rev bs ! (7 - j) = bs ! j" .
  moreover have "7 - j < (8 :: nat)" by arith
  ultimately show ?thesis using a by (simp only: bit_foldl_shift_in if_True simp_thms)
qed

subsection \<open>The accumulator across iterations\<close>

lemma find_header_acc:
  "acc_unchanged s (find_header crossings sampleRate dur s)
   \<or> acc_cleared s (find_header crossings sampleRate dur s)"
  by (simp add: find_header_def acc_unchanged_def acc_cleared_def Let_def split: prod.splits)

lemma read_data_acc:
  assumes "bitCount s \<noteq> 8"
  shows "acc_unchanged s (read_data crossings sampleRate dur s)
   \<or> acc_bit False s (read_data crossings sampleRate dur s)
   \<or> acc_bit True s (read_data crossings sampleRate dur s)"
  using assms
  by (simp add: read_data_def acc_unchanged_def acc_bit_def shift_in_def Let_def)

lemma loop_body_acc:
  assumes "bitCount s \<noteq> 8"
  shows "acc_unchanged s (loop_body crossings sampleRate s)
   \<or> acc_cleared s (loop_body crossings sampleRate s)
   \<or> acc_bit False s (loop_body crossings sampleRate s)
   \<or> acc_bit True s (loop_body crossings sampleRate s)"
proof (cases "state s")
  case StateFindHeader
  then show ?thesis
    using find_header_acc [of "s\<lparr>idx := idx s + 1\<rparr>" crossings sampleRate
        "durationSec crossings sampleRate (idx s)"]
    by (auto simp add: loop_body_def Let_def acc_unchanged_def acc_cleared_def)
next
  case StateFindSync
  then show ?thesis by (simp add: loop_body_def Let_def acc_unchanged_def)
next
  case StateReadData
  then show ?thesis
    using read_data_acc [of "s\<lparr>idx := idx s + 1\<rparr>" crossings sampleRate
        "durationSec crossings sampleRate (idx s)"] assms
    by (auto simp add: loop_body_def Let_def acc_unchanged_def acc_bit_def)
qed

lemma loop_body_bitCount:
  assumes "0 \<le> bitCount s \<and> bitCount s < 8"
  shows "0 \<le> bitCount (loop_body crossings sampleRate s)
         \<and> bitCount (loop_body crossings sampleRate s) < 8"
  using loop_body_acc [of s crossings sampleRate] assms
  by (auto simp add: acc_unchanged_def acc_cleared_def acc_bit_def split: if_splits)

lemma loop_body_appends:
  assumes "bitCount s \<noteq> 8"
  shows "\<exists>rest. decodedBytes (loop_body crossings sampleRate s) = decodedBytes s @ rest"
  using loop_body_acc [of s crossings sampleRate] assms
  by (auto simp add: acc_unchanged_def acc_cleared_def acc_bit_def split: if_splits)

lemma steps_invariant:
  "steps crossings sampleRate s s' \<Longrightarrow> 0 \<le> bitCount s \<and> bitCount s < 8 \<Longrightarrow>
   (0 \<le> bitCount s' \<and> bitCount s' < 8)
   \<and> (\<exists>rest. decodedBytes s' = decodedBytes s @ rest)"
proof (induction rule: steps.induct)
  case (steps_refl s)
  then show ?case by simp
next
  case (steps_iter s s')
  have b: "0 \<le> bitCount (loop_body crossings sampleRate s)
         \<and> bitCount (loop_body crossings sampleRate s) < 8"
    using steps_iter.prems by (rule loop_body_bitCount)
  obtain r1 where r1: "decodedBytes (loop_body crossings sampleRate s) = decodedBytes s @ r1"
    using loop_body_appends [of s crossings sampleRate] steps_iter.prems by auto
  from steps_iter.IH [OF b] obtain r2 where
    "0 \<le> bitCount s' \<and> bitCount s' < 8"
    "decodedBytes s' = decodedBytes (loop_body crossings sampleRate s) @ r2"
    by auto
  with r1 show ?case by simp
qed

lemma read_byte_output:
  assumes "state s = StateReadData" and "bitCount s = 0" and "length bs = 8"
    and "idx s + 16 \<le> length crossings"
    and "encodes_bits crossings sampleRate (idx s) bs"
  shows "\<exists>byte rest.
           decodedBytes (demod_loop crossings sampleRate s) = decodedBytes s @ byte # rest
           \<and> (\<forall>j<8. bit byte (7 - j) \<longleftrightarrow> bs ! j)"
proof -
  let ?byte = "foldl shift_in (currentByte s) bs"
  let ?s' = "s\<lparr>idx := idx s + 16, decodedBytes := decodedBytes s @ [?byte],
                currentByte := 0, bitCount := 0\<rparr>"
  have run: "steps crossings sampleRate s ?s'"
    using assms by (rule read_byte_run)
  have "steps crossings sampleRate ?s' (demod_loop crossings sampleRate ?s')"
    by (rule steps_final)
  moreover have "0 \<le> bitCount ?s' \<and> bitCount ?s' < 8" by simp
  ultimately obtain rest where
    "decodedBytes (demod_loop crossings sampleRate ?s') = decodedBytes ?s' @ rest"
    using steps_invariant by blast
  moreover have "demod_loop crossings sampleRate s = demod_loop crossings sampleRate ?s'"
    using run by (rule steps_demod_loop)
  ultimately have
    "decodedBytes (demod_loop crossings sampleRate s) = decodedBytes s @ ?byte # rest"
    by simp
  moreover have "\<forall>j<8. bit ?byte (7 - j) \<longleftrightarrow> bs ! j"
    using assms(3) by (simp add: byte_msb_first)
  ultimately show ?thesis by blast
qed

subsection \<open>The first loop\<close>

text \<open>The first loop only ever writes zero to the accumulator and never appends.\<close>

lemma first_pass_body_acc:
  "currentByte s = 0 \<and> bitCount s = 0 \<and> decodedBytes s = [] \<Longrightarrow>
   currentByte (first_pass_body crossings sampleRate k s) = 0
   \<and> bitCount (first_pass_body crossings sampleRate k s) = 0
   \<and> decodedBytes (first_pass_body crossings sampleRate k s) = []"
  by (simp add: first_pass_body_def split: prod.splits dstate.splits)

lemma fold_first_pass_body_acc:
  "currentByte s = 0 \<and> bitCount s = 0 \<and> decodedBytes s = [] \<Longrightarrow>
   currentByte (fold (first_pass_body crossings sampleRate) ks s) = 0
   \<and> bitCount (fold (first_pass_body crossings sampleRate) ks s) = 0
   \<and> decodedBytes (fold (first_pass_body crossings sampleRate) ks s) = []"
proof (induction ks arbitrary: s)
  case Nil
  then show ?case by simp
next
  case (Cons k ks)
  from Cons.prems have "currentByte (first_pass_body crossings sampleRate k s) = 0
   \<and> bitCount (first_pass_body crossings sampleRate k s) = 0
   \<and> decodedBytes (first_pass_body crossings sampleRate k s) = []"
    by (rule first_pass_body_acc)
  then show ?case using Cons.IH by simp
qed

lemma first_pass_reset:
  "(first_pass crossings sampleRate init_locals)
     \<lparr>idx := 1, state := StateFindHeader, headerCount := 0\<rparr> = init_locals"
proof -
  have "currentByte init_locals = 0 \<and> bitCount init_locals = 0
        \<and> decodedBytes init_locals = []"
    by (simp add: init_locals_def)
  then have "currentByte (first_pass crossings sampleRate init_locals) = 0
   \<and> bitCount (first_pass crossings sampleRate init_locals) = 0
   \<and> decodedBytes (first_pass crossings sampleRate init_locals) = []"
    unfolding first_pass_def by (rule fold_first_pass_body_acc)
  then show ?thesis
    by (simp add: init_locals_def)
qed

lemma processSamples_second_loop:
  "processSamples (prevSample # rest) sampleRate =
     Inr (decodedBytes (demod_loop (crossings_loop prevSample 0 (prevSample # rest) [])
                          sampleRate init_locals))"
  unfolding processSamples_def list.case Let_def first_pass_reset by (rule refl)

subsection \<open>Header, sync marker and one byte\<close>

lemma header_sync_run:
  assumes len: "63 \<le> length crossings"
    and hdr: "\<And>k. 1 \<le> k \<Longrightarrow> k \<le> 60 \<Longrightarrow>
           classify (durationSec crossings sampleRate k) = Medium
           \<and> f64_gt (durationSec crossings sampleRate k) ShortThreshold"
    and sync: "classify (durationSec crossings sampleRate 61) = Short"
      "classify (durationSec crossings sampleRate 62) = Short"
  shows "steps crossings sampleRate init_locals
     \<lparr>idx = 63, state = StateReadData, headerCount = 60, currentByte = 0, bitCount = 0,
      decodedBytes = []\<rparr>"
proof -
  let ?s1 = "init_locals\<lparr>idx := idx init_locals + 60,
               headerCount := headerCount init_locals + int 60\<rparr>"
  have first: "steps crossings sampleRate init_locals ?s1"
  proof (rule header_run)
    show "state init_locals = StateFindHeader" by (simp add: init_locals_def)
    show "idx init_locals + 60 \<le> length crossings" using len by (simp add: init_locals_def)
    fix k assume "idx init_locals \<le> k" "k < idx init_locals + 60"
    then have k: "1 \<le> k" "k \<le> 60" by (simp_all add: init_locals_def)
    then have "classify (durationSec crossings sampleRate k) = Medium"
      and "f64_gt (durationSec crossings sampleRate k) ShortThreshold"
      using hdr [of k] by simp_all
    then show "classify (durationSec crossings sampleRate k) = Long
           \<or> (f64_gt (durationSec crossings sampleRate k) ShortThreshold
              \<and> f64_lt (durationSec crossings sampleRate k) LongThreshold)"
      by (rule medium_strict_header_tone)
  qed
  have "loop_body crossings sampleRate ?s1 =
       ?s1\<lparr>idx := idx ?s1 + 2, state := StateReadData, currentByte := 0, bitCount := 0\<rparr>"
  proof (rule sync_step)
    show "state ?s1 = StateFindHeader" by (simp add: init_locals_def)
    show "50 < headerCount ?s1" by (simp add: init_locals_def)
    show "idx ?s1 + 1 < length crossings" using len by (simp add: init_locals_def)
    show "classify (durationSec crossings sampleRate (idx ?s1)) = Short"
      using sync(1) by (simp add: init_locals_def)
    show "classify (durationSec crossings sampleRate (idx ?s1 + 1)) = Short"
      using sync(2) by (simp add: init_locals_def)
  qed
  then have "loop_body crossings sampleRate ?s1 =
     \<lparr>idx = 63, state = StateReadData, headerCount = 60, currentByte = 0, bitCount = 0,
      decodedBytes = []\<rparr>"
    by (simp add: init_locals_def)
  moreover have "idx ?s1 < length crossings" using len by (simp add: init_locals_def)
  ultimately have "steps crossings sampleRate ?s1
     \<lparr>idx = 63, state = StateReadData, headerCount = 60, currentByte = 0, bitCount = 0,
      decodedBytes = []\<rparr>"
    using steps_body [of ?s1 crossings sampleRate] by simp
  with first show ?thesis by (rule steps_trans)
qed

lemma message_run:
  assumes t: "tones crossings sampleRate =
      replicate 60 Medium @ [Short, Short]
      @ [Medium, Medium, Short, Short, Medium, Medium, Medium, Medium,
         Short, Short, Short, Short, Medium, Medium, Short, Short]"
    and g: "\<And>k. 1 \<le> k \<Longrightarrow> k \<le> 60 \<Longrightarrow>
              f64_gt (durationSec crossings sampleRate k) ShortThreshold"
  shows "steps crossings sampleRate init_locals
           \<lparr>idx = 63, state = StateReadData, headerCount = 60, currentByte = 0,
            bitCount = 0, decodedBytes = []\<rparr>"
    and "encodes_bits crossings sampleRate 63
           [True, False, True, True, False, False, True, False]"
    and "demod_loop crossings sampleRate init_locals =
           \<lparr>idx = 79, state = StateReadData, headerCount = 60, currentByte = 0,
            bitCount = 0, decodedBytes = [0xB2]\<rparr>"
proof -
  let ?pat = "replicate 60 Medium @ [Short, Short]
      @ [Medium, Medium, Short, Short, Medium, Medium, Medium, Medium,
         Short, Short, Short, Short, Medium, Medium, Short, Short]"
  let ?bs = "[True, False, True, True, False, False, True, False]"
  let ?s2 = "\<lparr>idx = 63, state = StateReadData, headerCount = 60, currentByte = 0,
              bitCount = 0, decodedBytes = []\<rparr>"
  have "length (tones crossings sampleRate) = 78" unfolding t by simp
  then have len: "length crossings = 79" by (simp add: length_tones)
  have c: "classify (durationSec crossings sampleRate k) = ?pat ! (k - 1)"
    if "1 \<le> k" "k < 79" for k
    using tones_nth [of k crossings sampleRate] that len t by simp
  show first: "steps crossings sampleRate init_locals ?s2"
  proof (rule header_sync_run)
    show "63 \<le> length crossings" using len by simp
    show "classify (durationSec crossings sampleRate 61) = Short"
      using c [of 61] by (simp add: nth_append)
    show "classify (durationSec crossings sampleRate 62) = Short"
      using c [of 62] by (simp add: nth_append)
    fix k :: nat assume k: "1 \<le> k" "k \<le> 60"
    then have "classify (durationSec crossings sampleRate k) = Medium"
      using c [of k] by (simp add: nth_append)
    with g [OF k]
    show "classify (durationSec crossings sampleRate k) = Medium
           \<and> f64_gt (durationSec crossings sampleRate k) ShortThreshold"
      by simp
  qed
  show enc: "encodes_bits crossings sampleRate 63 ?bs"
    using c [of 63] c [of 64] c [of 65] c [of 66] c [of 67] c [of 68] c [of 69] c [of 70]
      c [of 71] c [of 72] c [of 73] c [of 74] c [of 75] c [of 76] c [of 77] c [of 78]
    by (simp add: nth_append tone_of_bit_def)
  have "steps crossings sampleRate ?s2
       (?s2\<lparr>idx := idx ?s2 + 16,
            decodedBytes := decodedBytes ?s2 @ [foldl shift_in (currentByte ?s2) ?bs],
            currentByte := 0, bitCount := 0\<rparr>)"
  proof (rule read_byte_run)
    show "state ?s2 = StateReadData" by simp
    show "bitCount ?s2 = 0" by simp
    show "length ?bs = 8" by simp
    show "idx ?s2 + 16 \<le> length crossings" by (simp add: len)
    show "encodes_bits crossings sampleRate (idx ?s2) ?bs" using enc by simp
  qed
  then have "steps crossings sampleRate ?s2
       \<lparr>idx = 79, state = StateReadData, headerCount = 60, currentByte = 0,
        bitCount = 0, decodedBytes = [0xB2]\<rparr>"
    by (simp add: shift_in_def)
  with first have "steps crossings sampleRate init_locals
       \<lparr>idx = 79, state = StateReadData, headerCount = 60, currentByte = 0,
        bitCount = 0, decodedBytes = [0xB2]\<rparr>"
    by (rule steps_trans)
  then show "demod_loop crossings sampleRate init_locals =
           \<lparr>idx = 79, state = StateReadData, headerCount = 60, currentByte = 0,
            bitCount = 0, decodedBytes = [0xB2]\<rparr>"
    using steps_complete_unique [of crossings sampleRate init_locals] len by fastforce
qed

lemma tones_message_crossings:
  "tones message_crossings 20000 =
      replicate 60 Medium @ [Short, Short]
      @ [Medium, Medium, Short, Short, Medium, Medium, Medium, Medium,
         Short, Short, Short, Short, Medium, Medium, Short, Short]"
  by (simp add: message_crossings_def tones_crossings_from classify_at_20000)

lemma header_message_crossings:
  "1 \<le> k \<Longrightarrow> k \<le> 60 \<Longrightarrow> f64_gt (durationSec message_crossings 20000 k) ShortThreshold"
  by (simp add: message_crossings_def durationSec_crossings_from nth_append f64_quot_def
        f64_gt_def ShortThreshold_def)

subsection \<open>The 16-bit sample extraction\<close>

lemma read_samples16_short:
  "length pcm < 2048 \<Longrightarrow> read_samples16 pcm numChannels samples = Some samples"
  by (simp add: read_samples16.simps)

lemma block16_loop_mono:
  "i \<le> length buf \<Longrightarrow>
   block16_loop buf 1 i samples =
     Some (samples @ map (\<lambda>w. Finite (of_int (sint w) / 32768)) (drop i buf))"
proof (induction "length buf - i" arbitrary: i samples)
  case 0
  then show ?case by (subst block16_loop.simps) simp
next
  case (Suc n)
  let ?conv = "\<lambda>w :: 16 word. Finite (of_int (sint w) / 32768)"
  from Suc have lt: "i < length buf" by simp
  have "block16_loop buf 1 i samples
        = block16_loop buf 1 (i + 1) (samples @ [?conv (buf ! i)])"
    using lt by (subst block16_loop.simps) simp
  also have "\<dots> = Some ((samples @ [?conv (buf ! i)]) @ map ?conv (drop (i + 1) buf))"
    using Suc.hyps(2) lt by (intro Suc.hyps(1)) simp_all
  also have "drop i buf = buf ! i # drop (i + 1) buf"
    using lt by (simp add: Cons_nth_drop_Suc)
  then have "(samples @ [?conv (buf ! i)]) @ map ?conv (drop (i + 1) buf)
             = samples @ map ?conv (drop i buf)"
    by simp
  finally show ?case .
qed

lemma length_int16s_le: "length (int16s_le bs) = length bs div 2"
  by (induction bs rule: int16s_le.induct) simp_all

lemma read_samples16_tail:
  assumes "2048 dvd length blocks" and "length tail < 2048"
  shows "read_samples16 (blocks @ tail) numChannels samples
         = read_samples16 blocks numChannels samples"
  using assms
proof (induction blocks numChannels samples rule: read_samples16.induct)
  case (1 pcm numChannels samples)
  show ?case
  proof (cases "length pcm < 2048")
    case True
    with "1.prems"(1) have "pcm = []" by (auto elim: dvdE)
    with "1.prems"(2) show ?thesis by (simp add: read_samples16_short)
  next
    case False
    then have ge: "2048 \<le> length pcm" by simp
    have d: "2048 dvd length (drop 2048 pcm)"
      using "1.prems"(1) ge by (simp add: dvd_diff_nat)
    have step: "read_samples16 (pcm @ tail) numChannels samples =
       (case block16_loop (int16s_le (take 2048 pcm)) numChannels 0 samples of
          None \<Rightarrow> None
        | Some samples' \<Rightarrow> read_samples16 (drop 2048 pcm @ tail) numChannels samples')"
      using ge by (subst read_samples16.simps) (simp cong: option.case_cong)
    show ?thesis
    proof (cases "block16_loop (int16s_le (take 2048 pcm)) numChannels 0 samples")
      case None
      with step ge show ?thesis by (subst (2) read_samples16.simps) simp
    next
      case (Some samples')
      have "read_samples16 (drop 2048 pcm @ tail) numChannels samples'
            = read_samples16 (drop 2048 pcm) numChannels samples'"
        using False Some d "1.prems"(2) by (rule "1.IH")
      with step Some ge show ?thesis by (subst (2) read_samples16.simps) simp
    qed
  qed
qed

lemma read_samples16_mono_count:
  "\<exists>out. read_samples16 pcm 1 samples = Some out
         \<and> length out = length samples + 1024 * (length pcm div 2048)"
proof (induction pcm "1 :: nat" samples rule: read_samples16.induct)
  case (1 pcm samples)
  show ?case
  proof (cases "length pcm < 2048")
    case True
    then show ?thesis by (simp add: read_samples16_short)
  next
    case False
    let ?conv = "\<lambda>w :: 16 word. Finite (of_int (sint w) / 32768)"
    let ?blk = "int16s_le (take 2048 pcm)"
    have len: "length ?blk = 1024" using False by (simp add: length_int16s_le)
    have blk: "block16_loop ?blk 1 0 samples = Some (samples @ map ?conv ?blk)"
      using block16_loop_mono [of 0 ?blk samples] by simp
    from "1.hyps" [OF False blk] obtain out where
      out: "read_samples16 (drop 2048 pcm) 1 (samples @ map ?conv ?blk) = Some out"
        "length out = length (samples @ map ?conv ?blk)
                       + 1024 * (length (drop 2048 pcm) div 2048)"
      by auto
    have "read_samples16 pcm 1 samples = Some out"
      using False blk out(1) by (subst read_samples16.simps) simp
    moreover have "length pcm div 2048 = Suc ((length pcm - 2048) div 2048)"
      using False by (simp add: le_div_geq)
    ultimately show ?thesis using out(2) len by simp
  qed
qed

subsection \<open>The example files\<close>

lemma read_header_wav24:
  "read_header wav24_file =
     Some \<lparr>ChunkID = RIFF, ChunkSize = 36, Format = WAVE,
           Subchunk1ID = [0x66, 0x6D, 0x74, 0x20], Subchunk1Size = 16, AudioFormat = 1,
           NumChannels = 1, SampleRate = 20000, ByteRate = 60000, BlockAlign = 3,
           BitsPerSample = 24\<rparr>"
  by (simp add: read_header_def wav24_file_def wav_prefix_def RIFF_def WAVE_def data_tag_def
        bytes_at_def le16_def le32_def)

lemma read_header_wav8:
  "read_header wav8_file =
     Some \<lparr>ChunkID = RIFF, ChunkSize = 36, Format = WAVE,
           Subchunk1ID = [0x66, 0x6D, 0x74, 0x20], Subchunk1Size = 16, AudioFormat = 1,
           NumChannels = 1, SampleRate = 20000, ByteRate = 20000, BlockAlign = 1,
           BitsPerSample = 8\<rparr>"
  by (simp add: read_header_def wav8_file_def wav_prefix_def RIFF_def WAVE_def data_tag_def
        bytes_at_def le16_def le32_def)

lemma find_data_chunk_wav24: "find_data_chunk wav24_file 36 = Inr 44"
  by (simp add: find_data_chunk.simps wav24_file_def wav_prefix_def RIFF_def WAVE_def
        data_tag_def bytes_at_def)

lemma find_data_chunk_wav8: "find_data_chunk wav8_file 36 = Inr 44"
  by (simp add: find_data_chunk.simps wav8_file_def wav_prefix_def RIFF_def WAVE_def
        data_tag_def bytes_at_def)

lemma length_wav8_file: "length wav8_file = 44"
  by (simp add: wav8_file_def wav_prefix_def RIFF_def WAVE_def data_tag_def)

lemma Decode_wav8_panics: "Decode (Some wav8_file) = Some (Inl IndexOutOfRange)"
proof -
  have "drop 44 wav8_file = []" by (simp add: length_wav8_file)
  then have "read_samples8 (drop 44 wav8_file) 1 [] = Some []"
    by (simp add: read_samples8.simps)
  then show ?thesis
    by (simp add: Decode_def read_header_wav8 find_data_chunk_wav8 processSamples_def)
qed

lemma processSamples_single_sample: "processSamples [x] sampleRate = Inr []"
  by (cases x)
    (simp_all add: processSamples_def first_pass_def init_locals_def demod_loop_done f64_ge_def)

section \<open>Claims\<close>

text \<open>
  C1. The claim: on a crossing sequence whose intervals are 60 Medium ones, two Short
  ones and the 16 that encode 10110010, the output is the one byte 0xB2 and the final
  state is \<open>FindHeader\<close>. The loop only leaves \<open>StateReadData\<close> when a pair has a
  duration above 600 microseconds, so after the byte the state is still
  \<open>StateReadData\<close>: the example run shows it. As amended: when each of the 60 header
  intervals is longer than 350 microseconds, the output is the one byte 0xB2 and the
  final state is \<open>StateReadData\<close>.
\<close>

theorem header_sync_byte:
  assumes "tones crossings sampleRate =
      replicate 60 Medium @ [Short, Short]
      @ [Medium, Medium, Short, Short, Medium, Medium, Medium, Medium,
         Short, Short, Short, Short, Medium, Medium, Short, Short]"
    and "\<forall>k. 1 \<le> k \<and> k \<le> 60 \<longrightarrow>
           f64_gt (durationSec crossings sampleRate k) ShortThreshold"
  shows "decodedBytes (demod_loop crossings sampleRate init_locals) = [0xB2]
         \<and> state (demod_loop crossings sampleRate init_locals) = StateReadData"
proof -
  have "demod_loop crossings sampleRate init_locals =
           \<lparr>idx = 79, state = StateReadData, headerCount = 60, currentByte = 0,
            bitCount = 0, decodedBytes = [0xB2]\<rparr>"
    using assms by (intro message_run(3)) simp_all
  then show ?thesis by simp
qed

theorem header_sync_byte_witness:
  "tones message_crossings 20000 =
      replicate 60 Medium @ [Short, Short]
      @ [Medium, Medium, Short, Short, Medium, Medium, Medium, Medium,
         Short, Short, Short, Short, Medium, Medium, Short, Short]
   \<and> decodedBytes (demod_loop message_crossings 20000 init_locals) = [0xB2]
   \<and> state (demod_loop message_crossings 20000 init_locals) = StateReadData"
  using header_sync_byte [OF tones_message_crossings] header_message_crossings
    tones_message_crossings
  by simp

theorem header_sync_byte_counterexample:
  "tones message_crossings 20000 =
      replicate 60 Medium @ [Short, Short]
      @ [Medium, Medium, Short, Short, Medium, Medium, Medium, Medium,
         Short, Short, Short, Short, Medium, Medium, Short, Short]
   \<and> decodedBytes (demod_loop message_crossings 20000 init_locals) = [0xB2]
   \<and> state (demod_loop message_crossings 20000 init_locals) \<noteq> StateFindHeader"
proof -
  have "demod_loop message_crossings 20000 init_locals =
           \<lparr>idx = 79, state = StateReadData, headerCount = 60, currentByte = 0,
            bitCount = 0, decodedBytes = [0xB2]\<rparr>"
    using tones_message_crossings header_message_crossings
    by (rule message_run(3))
  then show ?thesis using tones_message_crossings by simp
qed

text \<open>
  C2. The claim: every sample stream with fewer than two samples, the empty one
  included, gives no crossings and an empty output without a failure. On the empty
  stream \<open>processSamples\<close> reads \<open>samples[0]\<close> and panics.
\<close>

theorem processSamples_empty_panics:
  "processSamples [] sampleRate = Inl IndexOutOfRange"
  by (simp add: processSamples_def)

text \<open>
  C3. The claim: in \<open>FindHeader\<close> every interval of at least 350 microseconds
  increments the header counter. The test of the second loop asks for a duration above
  350 microseconds where the classification and the bit test accept 350 itself: an
  interval of exactly 350 microseconds (7 samples at 20000 per second) is Medium and
  resets the counter, here after an interval of 400 microseconds has set it to 1. With
  a header of 60 such intervals the message of C1 is lost.
\<close>

theorem find_header_boundary_resets:
  "tones [1, 9, 16] 20000 = [Medium, Medium]
   \<and> loop_body [1, 9, 16] 20000 init_locals = init_locals\<lparr>idx := 2, headerCount := 1\<rparr>
   \<and> loop_body [1, 9, 16] 20000 (init_locals\<lparr>idx := 2, headerCount := 1\<rparr>)
       = init_locals\<lparr>idx := 3, headerCount := 0\<rparr>
   \<and> tones (crossings_from 1 (replicate 60 7 @ [4, 4]
          @ [10, 10, 4, 4, 10, 10, 10, 10, 4, 4, 4, 4, 10, 10, 4, 4])) 20000
       = replicate 60 Medium @ [Short, Short]
         @ [Medium, Medium, Short, Short, Medium, Medium, Medium, Medium,
            Short, Short, Short, Short, Medium, Medium, Short, Short]
   \<and> decodedBytes (demod_loop (crossings_from 1 (replicate 60 7 @ [4, 4]
          @ [10, 10, 4, 4, 10, 10, 10, 10, 4, 4, 4, 4, 10, 10, 4, 4])) 20000 init_locals)
       = []"
proof -
  have "tones [1, 9, 16] 20000 = [Medium, Medium]"
    using tones_crossings_from [of 1 "[8, 7]" 20000] by (simp add: classify_at_20000)
  moreover have
    "loop_body [1, 9, 16] 20000 init_locals = init_locals\<lparr>idx := 2, headerCount := 1\<rparr>"
    by (simp add: init_locals_def loop_body_def find_header_def Let_def durationSec_def
        f64_quot_def classify_def f64_gt_def ShortThreshold_def LongThreshold_def)
  moreover have "loop_body [1, 9, 16] 20000 (init_locals\<lparr>idx := 2, headerCount := 1\<rparr>)
       = init_locals\<lparr>idx := 3, headerCount := 0\<rparr>"
    by (simp add: init_locals_def loop_body_def find_header_def Let_def durationSec_def
        f64_quot_def classify_def f64_gt_def ShortThreshold_def LongThreshold_def)
  moreover have "tones (crossings_from 1 (replicate 60 7 @ [4, 4]
          @ [10, 10, 4, 4, 10, 10, 10, 10, 4, 4, 4, 4, 10, 10, 4, 4])) 20000
       = replicate 60 Medium @ [Short, Short]
         @ [Medium, Medium, Short, Short, Medium, Medium, Medium, Medium,
            Short, Short, Short, Short, Medium, Medium, Short, Short]"
    by (simp add: tones_crossings_from classify_at_20000)
  moreover have "decodedBytes (demod_loop (crossings_from 1 (replicate 60 7 @ [4, 4]
          @ [10, 10, 4, 4, 10, 10, 10, 10, 4, 4, 4, 4, 10, 10, 4, 4])) 20000 init_locals)
       = []"
    by (simp add: demod_loop.simps init_locals_def loop_body_def find_header_def
        read_data_def Let_def length_crossings_from durationSec_crossings_from nth_append
        f64_quot_def classify_def f64_gt_def f64_ge_def ShortThreshold_def
        LongThreshold_def)
  ultimately show ?thesis by (intro conjI)
qed

text \<open>
  C4. The claim: in \<open>ReadData\<close> a pair with a duration of at least 600 microseconds
  ends the data: the partial byte is dropped and the state goes back to
  \<open>FindHeader\<close>. The test asks for a duration above 600 microseconds where the
  classification takes 600 itself as Long: a pair of two intervals of exactly 600
  microseconds (12 samples at 20000 per second) is skipped, the state stays
  \<open>StateReadData\<close> and the three bits read before it end up in the byte that the
  five bits after it complete.
\<close>

theorem read_data_boundary_not_end_marker:
  "tones long_pair_crossings 20000 =
     replicate 60 Medium @ [Short, Short] @ [Medium, Medium, Short, Short, Medium, Medium]
     @ [Long, Long]
     @ [Medium, Medium, Short, Short, Short, Short, Medium, Medium, Short, Short]
   \<and> loop_body long_pair_crossings 20000
        \<lparr>idx = 69, state = StateReadData, headerCount = 60, currentByte = 5, bitCount = 3,
         decodedBytes = []\<rparr>
      = \<lparr>idx = 71, state = StateReadData, headerCount = 60, currentByte = 5, bitCount = 3,
         decodedBytes = []\<rparr>
   \<and> demod_loop long_pair_crossings 20000 init_locals =
       \<lparr>idx = 81, state = StateReadData, headerCount = 60, currentByte = 0, bitCount = 0,
        decodedBytes = [0xB2]\<rparr>"
proof -
  have "tones long_pair_crossings 20000 =
     replicate 60 Medium @ [Short, Short] @ [Medium, Medium, Short, Short, Medium, Medium]
     @ [Long, Long]
     @ [Medium, Medium, Short, Short, Short, Short, Medium, Medium, Short, Short]"
    by (simp add: long_pair_crossings_def tones_crossings_from classify_at_20000)
  moreover have "loop_body long_pair_crossings 20000
        \<lparr>idx = 69, state = StateReadData, headerCount = 60, currentByte = 5, bitCount = 3,
         decodedBytes = []\<rparr>
      = \<lparr>idx = 71, state = StateReadData, headerCount = 60, currentByte = 5, bitCount = 3,
         decodedBytes = []\<rparr>"
    by (simp add: long_pair_crossings_def loop_body_def read_data_def Let_def
        length_crossings_from durationSec_crossings_from nth_append
        f64_quot_def f64_gt_def f64_ge_def ShortThreshold_def LongThreshold_def)
  moreover have "demod_loop long_pair_crossings 20000 init_locals =
       \<lparr>idx = 81, state = StateReadData, headerCount = 60, currentByte = 0, bitCount = 0,
        decodedBytes = [0xB2]\<rparr>"
    by (simp add: long_pair_crossings_def demod_loop.simps init_locals_def loop_body_def
        find_header_def read_data_def Let_def length_crossings_from
        durationSec_crossings_from nth_append f64_quot_def classify_def f64_gt_def
        f64_ge_def ShortThreshold_def LongThreshold_def)
  ultimately show ?thesis by (intro conjI)
qed

text \<open>
  C5. For a positive sample rate the interval between two adjacent crossings, of
  duration \<open>q = (indexB - indexA) / sampleRate\<close> seconds, is flagged Short
  (\<open>isShort\<close>) when \<open>q\<close> is below 350 microseconds, Medium (neither flag) from 350
  up to but not including 600 microseconds, and Long (\<open>isHeader\<close>) from 600
  microseconds on.
\<close>

theorem classify_bands:
  assumes "sampleRate \<noteq> 0"
  shows "let q = (of_int (crossings ! k - crossings ! (k - 1)) / of_nat (unat sampleRate) :: rat)
     in (q < 350 / 1000000 \<longrightarrow> classify (durationSec crossings sampleRate k) = Short)
      \<and> (350 / 1000000 \<le> q \<and> q < 600 / 1000000 \<longrightarrow>
           classify (durationSec crossings sampleRate k) = Medium)
      \<and> (600 / 1000000 \<le> q \<longrightarrow> classify (durationSec crossings sampleRate k) = Long)"
proof -
  define q :: rat
    where "q = of_int (crossings ! k - crossings ! (k - 1)) / of_nat (unat sampleRate)"
  have d: "durationSec crossings sampleRate k = Finite q"
    unfolding q_def using assms by (rule durationSec_Finite)
  have "(q < 350 / 1000000 \<longrightarrow> classify (Finite q) = Short)
      \<and> (350 / 1000000 \<le> q \<and> q < 600 / 1000000 \<longrightarrow> classify (Finite q) = Medium)
      \<and> (600 / 1000000 \<le> q \<longrightarrow> classify (Finite q) = Long)"
    unfolding classify_Finite by auto
  then show ?thesis
    unfolding Let_def d q_def [symmetric] .
qed

theorem classify_bands_witness:
  "(20000 :: 32 word) \<noteq> 0
   \<and> classify (durationSec [0, 6] 20000 1) = Short
   \<and> classify (durationSec [0, 7] 20000 1) = Medium
   \<and> classify (durationSec [0, 11] 20000 1) = Medium
   \<and> classify (durationSec [0, 12] 20000 1) = Long"
  using classify_bands [of 20000 "[0, 6]" 1] classify_bands [of 20000 "[0, 7]" 1]
    classify_bands [of 20000 "[0, 11]" 1] classify_bands [of 20000 "[0, 12]" 1]
  by (simp add: Let_def)

text \<open>
  C6. At every head of the second loop the bit count is between 0 and 7, so it never
  exceeds 8 within an iteration. An iteration leaves the accumulator and the output
  as they are, or clears the accumulator (sync), or shifts one bit into the byte from
  the right; when that bit is the eighth, the byte is appended to the output and byte
  and count are reset to 0. The output of the run extends the output so far. Eight bits
  read from an empty accumulator give a byte whose bit \<open>7 - j\<close> is the \<open>j\<close>-th bit
  read: the first bit is the high bit.
\<close>

theorem bit_accumulator_invariant:
  assumes "steps crossings sampleRate init_locals s"
  shows "(0 \<le> bitCount s \<and> bitCount s < 8)
    \<and> (acc_unchanged s (loop_body crossings sampleRate s)
       \<or> acc_cleared s (loop_body crossings sampleRate s)
       \<or> acc_bit False s (loop_body crossings sampleRate s)
       \<or> acc_bit True s (loop_body crossings sampleRate s))
    \<and> (\<exists>rest. decodedBytes (demod_loop crossings sampleRate s) = decodedBytes s @ rest)
    \<and> (\<forall>bs. state s = StateReadData \<and> bitCount s = 0 \<and> length bs = 8
             \<and> idx s + 16 \<le> length crossings
             \<and> encodes_bits crossings sampleRate (idx s) bs \<longrightarrow>
           (\<exists>byte rest.
              decodedBytes (demod_loop crossings sampleRate s) = decodedBytes s @ byte # rest
              \<and> (\<forall>j<8. bit byte (7 - j) \<longleftrightarrow> bs ! j)))"
proof -
  have "0 \<le> bitCount init_locals \<and> bitCount init_locals < 8"
    by (simp add: init_locals_def)
  with assms have inv: "0 \<le> bitCount s \<and> bitCount s < 8"
    using steps_invariant by blast
  then have "bitCount s \<noteq> 8" by simp
  then have body: "acc_unchanged s (loop_body crossings sampleRate s)
       \<or> acc_cleared s (loop_body crossings sampleRate s)
       \<or> acc_bit False s (loop_body crossings sampleRate s)
       \<or> acc_bit True s (loop_body crossings sampleRate s)"
    by (rule loop_body_acc)
  have "steps crossings sampleRate s (demod_loop crossings sampleRate s)"
    by (rule steps_final)
  with inv have grows:
    "\<exists>rest. decodedBytes (demod_loop crossings sampleRate s) = decodedBytes s @ rest"
    using steps_invariant by blast
  have byte: "\<exists>byte rest.
        decodedBytes (demod_loop crossings sampleRate s) = decodedBytes s @ byte # rest
        \<and> (\<forall>j<8. bit byte (7 - j) \<longleftrightarrow> bs ! j)"
    if "state s = StateReadData \<and> bitCount s = 0 \<and> length bs = 8
        \<and> idx s + 16 \<le> length crossings \<and> encodes_bits crossings sampleRate (idx s) bs"
    for bs
    using that by (intro read_byte_output) simp_all
  from inv body grows byte show ?thesis by blast
qed

theorem bit_accumulator_invariant_witness:
  "steps message_crossings 20000 init_locals
     \<lparr>idx = 63, state = StateReadData, headerCount = 60, currentByte = 0, bitCount = 0,
      decodedBytes = []\<rparr>
   \<and> encodes_bits message_crossings 20000 63
       [True, False, True, True, False, False, True, False]
   \<and> (\<exists>byte rest.
        decodedBytes (demod_loop message_crossings 20000
          \<lparr>idx = 63, state = StateReadData, headerCount = 60, currentByte = 0,
           bitCount = 0, decodedBytes = []\<rparr>) = byte # rest
        \<and> (\<forall>j<8. bit byte (7 - j)
                    \<longleftrightarrow> [True, False, True, True, False, False, True, False] ! j))"
proof -
  let ?s = "\<lparr>idx = 63, state = StateReadData, headerCount = 60, currentByte = 0,
             bitCount = 0, decodedBytes = []\<rparr>"
  let ?bs = "[True, False, True, True, False, False, True, False]"
  have r: "steps message_crossings 20000 init_locals ?s"
    using tones_message_crossings header_message_crossings
    by (rule message_run(1))
  have e: "encodes_bits message_crossings 20000 63 ?bs"
    using tones_message_crossings header_message_crossings
    by (rule message_run(2))
  have l: "length message_crossings = 79"
    by (simp add: message_crossings_def length_crossings_from)
  have "\<forall>bs. state ?s = StateReadData \<and> bitCount ?s = 0 \<and> length bs = 8
             \<and> idx ?s + 16 \<le> length message_crossings
             \<and> encodes_bits message_crossings 20000 (idx ?s) bs \<longrightarrow>
           (\<exists>byte rest.
              decodedBytes (demod_loop message_crossings 20000 ?s)
                = decodedBytes ?s @ byte # rest
              \<and> (\<forall>j<8. bit byte (7 - j) \<longleftrightarrow> bs ! j))"
    using bit_accumulator_invariant [OF r] by blast
  then have "state ?s = StateReadData \<and> bitCount ?s = 0 \<and> length ?bs = 8
             \<and> idx ?s + 16 \<le> length message_crossings
             \<and> encodes_bits message_crossings 20000 (idx ?s) ?bs \<longrightarrow>
           (\<exists>byte rest.
              decodedBytes (demod_loop message_crossings 20000 ?s)
                = decodedBytes ?s @ byte # rest
              \<and> (\<forall>j<8. bit byte (7 - j) \<longleftrightarrow> ?bs ! j))"
    by (rule spec)
  with e l have "\<exists>byte rest.
        decodedBytes (demod_loop message_crossings 20000 ?s) = byte # rest
        \<and> (\<forall>j<8. bit byte (7 - j) \<longleftrightarrow> ?bs ! j)"
    by simp
  with r e show ?thesis by (intro conjI)
qed

text \<open>
  C7. The first loop is dead code: when it ends, the state and the header counter are
  assigned afresh and the accumulator still holds its initial zeros, so
  \<open>processSamples\<close> returns what the single-pass decoder returns.
\<close>

theorem first_pass_dead:
  "(first_pass crossings sampleRate init_locals)
      \<lparr>idx := 1, state := StateFindHeader, headerCount := 0\<rparr> = init_locals
   \<and> processSamples samples sampleRate = processSamples_single_pass samples sampleRate"
proof (rule conjI)
  show "(first_pass crossings sampleRate init_locals)
      \<lparr>idx := 1, state := StateFindHeader, headerCount := 0\<rparr> = init_locals"
    by (rule first_pass_reset)
next
  show "processSamples samples sampleRate = processSamples_single_pass samples sampleRate"
  proof (cases samples)
    case Nil
    then show ?thesis
      by (simp add: processSamples_def processSamples_single_pass_def)
  next
    case (Cons prevSample rest)
    show ?thesis
      unfolding processSamples_def processSamples_single_pass_def Cons list.case Let_def
        first_pass_reset
      by (rule refl)
  qed
qed

text \<open>
  C8. The claim: for every sample width other than 8 or 16 bits \<open>Decode\<close> fails
  with the unsupported-width error and returns no bytes. \<open>Decode\<close> checks the tags
  and looks for the data chunk before it looks at the width, so a file that declares 24
  bits and has no data chunk fails with the data-chunk error instead. As amended: when
  the header declares a width other than 8 or 16 bits, \<open>Decode\<close> returns an error
  and no bytes, and once the container has been accepted (the tags are RIFF and WAVE
  and the data chunk is found) that error is the unsupported-width one.
\<close>

theorem unsupported_bits_per_sample:
  assumes "read_header f = Some header"
    and "BitsPerSample header \<noteq> 8" and "BitsPerSample header \<noteq> 16"
  shows "(\<exists>e. Decode (Some f) = Some (Inl e))
    \<and> (ChunkID header = RIFF \<and> Format header = WAVE
        \<and> (\<exists>pos. find_data_chunk f 36 = Inr pos) \<longrightarrow>
       Decode (Some f) = Some (Inl (UnsupportedBitsPerSample (BitsPerSample header))))"
  using assms by (auto simp add: Decode_def split: sum.splits)

theorem unsupported_bits_per_sample_witness:
  "Decode (Some wav24_file) = Some (Inl (UnsupportedBitsPerSample 24))"
  using unsupported_bits_per_sample [OF read_header_wav24] find_data_chunk_wav24
  by simp

theorem unsupported_bits_per_sample_counterexample:
  "map_option BitsPerSample (read_header wav24_no_data_file) = Some 24
   \<and> Decode (Some wav24_no_data_file) = Some (Inl DataChunkNotFound)
   \<and> Decode (Some wav24_no_data_file) \<noteq> Some (Inl (UnsupportedBitsPerSample 24))"
proof -
  have h: "read_header wav24_no_data_file =
     Some \<lparr>ChunkID = RIFF, ChunkSize = 36, Format = WAVE,
           Subchunk1ID = [0x66, 0x6D, 0x74, 0x20], Subchunk1Size = 16, AudioFormat = 1,
           NumChannels = 1, SampleRate = 20000, ByteRate = 60000, BlockAlign = 3,
           BitsPerSample = 24\<rparr>"
    by (simp add: read_header_def wav24_no_data_file_def wav_prefix_def RIFF_def WAVE_def
          bytes_at_def le16_def le32_def)
  have c: "find_data_chunk wav24_no_data_file 36 = Inl DataChunkNotFound"
    by (simp add: find_data_chunk.simps wav24_no_data_file_def wav_prefix_def RIFF_def
          WAVE_def)
  have "Decode (Some wav24_no_data_file) = Some (Inl DataChunkNotFound)"
    by (simp add: Decode_def h c)
  with h show ?thesis by simp
qed

text \<open>
  C9. The pipeline is deterministic: for a sample stream and a sample rate, any two
  complete runs of the second loop from the initial locals, over the crossings of the
  stream, end with the same output, the one \<open>processSamples\<close> returns.
\<close>

theorem pipeline_deterministic:
  assumes "samples = prevSample # rest"
    and "crossings = crossings_loop prevSample 0 samples []"
    and "steps crossings sampleRate init_locals s1" and "\<not> idx s1 < length crossings"
    and "steps crossings sampleRate init_locals s2" and "\<not> idx s2 < length crossings"
  shows "decodedBytes s1 = decodedBytes s2
         \<and> processSamples samples sampleRate = Inr (decodedBytes s1)"
proof -
  have s1: "s1 = demod_loop crossings sampleRate init_locals"
    using assms(3,4) by (rule steps_complete_unique)
  have s2: "s2 = demod_loop crossings sampleRate init_locals"
    using assms(5,6) by (rule steps_complete_unique)
  have "processSamples samples sampleRate
        = Inr (decodedBytes (demod_loop crossings sampleRate init_locals))"
    unfolding assms(1,2) by (rule processSamples_second_loop)
  with s1 s2 show ?thesis by simp
qed

theorem pipeline_deterministic_witness:
  "processSamples [Finite 1, Finite (- 1), Finite 1] 20000
     = Inr (decodedBytes (demod_loop [1, 2] 20000 init_locals))"
proof -
  have c: "[1, 2] = crossings_loop (Finite 1) 0 [Finite 1, Finite (- 1), Finite 1] []"
    by (simp add: f64_ge_def)
  have "steps [1, 2] 20000 init_locals (demod_loop [1, 2] 20000 init_locals)"
    by (rule steps_final)
  moreover have "\<not> idx (demod_loop [1, 2] 20000 init_locals) < length [1, 2 :: int]"
    by (rule demod_loop_exhausts)
  ultimately show ?thesis
    using pipeline_deterministic [OF refl c, of 20000
        "demod_loop [1, 2] 20000 init_locals" "demod_loop [1, 2] 20000 init_locals"]
    by simp
qed

text \<open>
  C10. The 16-bit path reads blocks of 1024 values (2048 bytes). The bytes after the
  last full block contribute no sample, whatever the channel count; with one channel
  the sample stream has 1024 samples per full block and none for the up to 1023
  values that follow.
\<close>

theorem partial_block_dropped:
  assumes "2048 dvd length blocks" and "length tail < 2048"
  shows "read_samples16 (blocks @ tail) numChannels samples
           = read_samples16 blocks numChannels samples
    \<and> (\<exists>out. read_samples16 (blocks @ tail) 1 [] = Some out
              \<and> length out = 1024 * (length blocks div 2048))"
proof -
  have "read_samples16 (blocks @ tail) numChannels samples
           = read_samples16 blocks numChannels samples"
    using assms by (rule read_samples16_tail)
  moreover obtain out where "read_samples16 blocks 1 [] = Some out"
    and "length out = length ([] :: f64 list) + 1024 * (length blocks div 2048)"
    using read_samples16_mono_count [of blocks "[]"] by blast
  moreover have "read_samples16 (blocks @ tail) 1 [] = read_samples16 blocks 1 []"
    using assms by (rule read_samples16_tail)
  ultimately show ?thesis by simp
qed

theorem partial_block_dropped_witness:
  "\<exists>out. read_samples16 (replicate 2048 0 @ replicate 2046 255) 1 [] = Some out
         \<and> length out = 1024"
proof -
  have "2048 dvd length (replicate 2048 (0 :: byte))"
    and "length (replicate 2046 (255 :: byte)) < 2048"
    by simp_all
  then have "\<exists>out. read_samples16 (replicate 2048 0 @ replicate 2046 255) 1 [] = Some out
         \<and> length out = 1024 * (length (replicate 2048 (0 :: byte)) div 2048)"
    by (rule partial_block_dropped [THEN conjunct2])
  then show ?thesis by simp
qed

end
